theory Spec2Isabelle
  imports Complex_Main
begin

section \<open>The JavaScript \<open>Map\<close> used by the cache\<close>

text \<open>
  A JavaScript \<open>Map\<close> keeps its entries in insertion order and holds every key at most
  once. It is modelled as an association list: \<open>Map_set\<close> overwrites the value of a key
  in place or appends a new entry, \<open>Map_delete\<close> removes the entry of a key, \<open>Map_get\<close>
  yields \<open>None\<close> for JavaScript's \<open>undefined\<close>.
\<close>

type_synonym ('k, 'v) jsmap = "('k \<times> 'v) list"

primrec Map_set :: "'k \<Rightarrow> 'v \<Rightarrow> ('k, 'v) jsmap \<Rightarrow> ('k, 'v) jsmap" where
  "Map_set k v [] = [(k, v)]"
| "Map_set k v (p # ps) = (if fst p = k then (k, v) # ps else p # Map_set k v ps)"

primrec Map_get :: "('k, 'v) jsmap \<Rightarrow> 'k \<Rightarrow> 'v option" where
  "Map_get [] k = None"
| "Map_get (p # ps) k = (if fst p = k then Some (snd p) else Map_get ps k)"

primrec Map_has :: "('k, 'v) jsmap \<Rightarrow> 'k \<Rightarrow> bool" where
  "Map_has [] k = False"
| "Map_has (p # ps) k = (if fst p = k then True else Map_has ps k)"

primrec Map_delete :: "'k \<Rightarrow> ('k, 'v) jsmap \<Rightarrow> ('k, 'v) jsmap" where
  "Map_delete k [] = []"
| "Map_delete k (p # ps) = (if fst p = k then Map_delete k ps else p # Map_delete k ps)"

definition Map_size :: "('k, 'v) jsmap \<Rightarrow> nat" where
  "Map_size m = length m"

definition Map_keys :: "('k, 'v) jsmap \<Rightarrow> 'k list" where
  "Map_keys m = map fst m"

section \<open>The validator interface and the cache instance\<close>

text \<open>
  A Standard Schema validator returns either a success result carrying the output value
  or a failure result carrying an array of issues. Keys are of type \<open>'k\<close>, values of
  type \<open>'v\<close> (values other than \<open>null\<close> and \<open>undefined\<close>), issues of type \<open>'i\<close>.
  Timestamps are epoch milliseconds, modelled as integers.
\<close>

datatype ('o, 'i) Result = SuccessResult 'o | FailureResult "'i list"

datatype error = Error string

record ('k, 'v, 'i) TinyKv =
  storage :: "('k, 'v) jsmap"
  exMap :: "('k, int) jsmap"
  intervalActive :: bool
  keySchema :: "('k \<Rightarrow> ('k, 'i) Result) option"
  valueSchema :: "('v \<Rightarrow> ('v, 'i) Result) option"

text \<open>The constructor: both maps empty, the one-second interval timer started. The field
  \<open>intervalActive\<close> says whether the interval kept in \<open>#activeExStrategyIntervalId\<close> is
  still scheduled.\<close>

definition new_TinyKv ::
  "('k \<Rightarrow> ('k, 'i) Result) option \<Rightarrow> ('v \<Rightarrow> ('v, 'i) Result) option \<Rightarrow> ('k, 'v, 'i) TinyKv" where
  "new_TinyKv ks vs =
     \<lparr>storage = [], exMap = [], intervalActive = True, keySchema = ks, valueSchema = vs\<rparr>"

section \<open>The public methods\<close>

text \<open>
  Every method that reads \<open>Date.now()\<close> takes the current time \<open>now\<close> as an argument.
  Every method returns its result together with the instance as the call leaves it;
  \<open>delete\<close> and \<open>cleanup\<close>, whose result is the instance or nothing, return the instance.
\<close>

text \<open>\<open>isExpired\<close>: \<open>None\<close> is \<open>undefined\<close>. The method assigns to no field.\<close>

definition isExpired ::
  "('k, 'v, 'i) TinyKv \<Rightarrow> int \<Rightarrow> 'k \<Rightarrow> bool option \<times> ('k, 'v, 'i) TinyKv" where
  "isExpired kv now key =
     (if \<not> Map_has (exMap kv) key then (None, kv)
      else (case Map_get (exMap kv) key of
              Some deadline \<Rightarrow> (Some (now > deadline), kv)
            | None \<Rightarrow> (None, kv)))"

definition delete :: "('k, 'v, 'i) TinyKv \<Rightarrow> 'k \<Rightarrow> ('k, 'v, 'i) TinyKv" where
  "delete kv key = kv\<lparr>storage := Map_delete key (storage kv), exMap := Map_delete key (exMap kv)\<rparr>"

text \<open>\<open>get\<close>: \<open>None\<close> is \<open>null\<close>. The test \<open>if (this.isExpired(key))\<close> is a truthiness
  test: \<open>undefined\<close> and \<open>false\<close> both fail it.\<close>

definition get :: "('k, 'v, 'i) TinyKv \<Rightarrow> int \<Rightarrow> 'k \<Rightarrow> 'v option \<times> ('k, 'v, 'i) TinyKv" where
  "get kv now key =
     (case isExpired kv now key of
        (expired, kv1) \<Rightarrow>
          if expired = Some True then (None, delete kv1 key)
          else (Map_get (storage kv1) key, kv1))"

definition exists :: "('k, 'v, 'i) TinyKv \<Rightarrow> int \<Rightarrow> 'k \<Rightarrow> bool \<times> ('k, 'v, 'i) TinyKv" where
  "exists kv now key =
     (case isExpired kv now key of
        (expired, kv1) \<Rightarrow>
          if expired = Some True then (False, delete kv1 key)
          else (Map_has (storage kv1) key, kv1))"

text \<open>\<open>getExpiration\<close> returns the deadline, or \<open>undefined\<close> together with a line on
  the error console (the flag says whether the line was written).\<close>

definition getExpiration ::
  "('k, 'v, 'i) TinyKv \<Rightarrow> 'k \<Rightarrow> (int option \<times> bool) \<times> ('k, 'v, 'i) TinyKv" where
  "getExpiration kv key =
     (if \<not> Map_has (exMap kv) key then ((None, True), kv)
      else ((Map_get (exMap kv) key, False), kv))"

definition cleanup :: "('k, 'v, 'i) TinyKv \<Rightarrow> ('k, 'v, 'i) TinyKv" where
  "cleanup kv = kv\<lparr>storage := [], exMap := [], intervalActive := False\<rparr>"

text \<open>
  \<open>#validate\<close> throws \<open>new Error(JSON.stringify(result.issues, null, 2))\<close> when the result
  has issues (an array is truthy, also when empty), and returns the result's value
  otherwise. The serialiser is the parameter \<open>stringify\<close>.
\<close>

definition validate :: "('i list \<Rightarrow> string) \<Rightarrow> ('a \<Rightarrow> ('a, 'i) Result) \<Rightarrow> 'a \<Rightarrow> error + 'a" where
  "validate stringify schema input =
     (case schema input of
        FailureResult issues \<Rightarrow> Inl (Error (stringify issues))
      | SuccessResult v \<Rightarrow> Inr v)"

text \<open>
  \<open>set\<close>: the options argument is \<open>Some ex\<close> for \<open>{ex: ex}\<close> and \<open>None\<close> when
  \<open>opts?.ex\<close> is \<open>undefined\<close>. The test \<open>if (opts?.ex)\<close> is a truthiness test, which the
  number \<open>0\<close> fails. The result is \<open>Inl\<close> of the error thrown by \<open>#validate\<close>, or \<open>Inr ()\<close>
  when the call returns the instance.
\<close>

definition set_kv ::
  "('i list \<Rightarrow> string) \<Rightarrow> ('k, 'v, 'i) TinyKv \<Rightarrow> 'k \<Rightarrow> 'v \<Rightarrow> int option
     \<Rightarrow> (error + unit) \<times> ('k, 'v, 'i) TinyKv" where
  "set_kv stringify kv key val opts =
     (case (case keySchema kv of None \<Rightarrow> Inr key | Some s \<Rightarrow> validate stringify s key) of
        Inl e \<Rightarrow> (Inl e, kv)
      | Inr finalKey \<Rightarrow>
          (case (case valueSchema kv of None \<Rightarrow> Inr val | Some s \<Rightarrow> validate stringify s val) of
             Inl e \<Rightarrow> (Inl e, kv)
           | Inr finalValue \<Rightarrow>
               (let kv1 = kv\<lparr>storage := Map_set finalKey finalValue (storage kv)\<rparr>;
                    kv2 = (case opts of
                             None \<Rightarrow> kv1
                           | Some ex \<Rightarrow>
                               if ex \<noteq> 0 then kv1\<lparr>exMap := Map_set finalKey ex (exMap kv1)\<rparr>
                               else kv1)
                in (Inr (), kv2))))"

section \<open>The active sweep\<close>

text \<open>
  \<open>buildMapSample\<close>: the loop runs while \<open>i < Math.min(count, shuffledKeys.length)\<close> with
  the fractional \<open>count = map.size * rate\<close>. The random shuffle
  \<open>keys.sort(() => 0.5 - Math.random())\<close> is the parameter \<open>shuffle\<close>. The sample maps
  each chosen key to \<open>map.get(key)\<close>, which may be \<open>undefined\<close>.
\<close>

function sample_loop ::
  "real \<Rightarrow> 'k list \<Rightarrow> ('k, 'v) jsmap \<Rightarrow> nat \<Rightarrow> ('k, 'v option) jsmap \<Rightarrow> ('k, 'v option) jsmap" where
  "sample_loop count shuffledKeys m i sampledEntries =
     (if real i < min count (real (length shuffledKeys))
      then sample_loop count shuffledKeys m (Suc i)
             (Map_set (shuffledKeys ! i) (Map_get m (shuffledKeys ! i)) sampledEntries)
      else sampledEntries)"
  by pat_completeness auto
termination
  by (relation "measure (\<lambda>(count, shuffledKeys, m, i, acc). length shuffledKeys - i)") auto

definition buildMapSample ::
  "('k list \<Rightarrow> 'k list) \<Rightarrow> ('k, 'v) jsmap \<Rightarrow> real \<Rightarrow> ('k, 'v option) jsmap" where
  "buildMapSample shuffle m rate =
     (let count = real (Map_size m) * rate;
          keys = Map_keys m;
          shuffledKeys = shuffle keys
      in sample_loop count shuffledKeys m 0 [])"

text \<open>The comparison \<open>currentTimestamp <= timestamp\<close>; it is false against \<open>undefined\<close>.\<close>

definition timestamp_le :: "int \<Rightarrow> int option \<Rightarrow> bool" where
  "timestamp_le currentTimestamp timestamp =
     (case timestamp of None \<Rightarrow> False | Some t \<Rightarrow> currentTimestamp \<le> t)"

text \<open>The body of \<open>sample.forEach\<close>, threading the hit counter and the instance.\<close>

fun sample_forEach ::
  "int \<Rightarrow> ('k, int option) jsmap \<Rightarrow> nat \<times> ('k, 'v, 'i) TinyKv \<Rightarrow> nat \<times> ('k, 'v, 'i) TinyKv" where
  "sample_forEach currentTimestamp [] (hitCount, kv) = (hitCount, kv)"
| "sample_forEach currentTimestamp ((key, timestamp) # rest) (hitCount, kv) =
     (if timestamp_le currentTimestamp timestamp
      then sample_forEach currentTimestamp rest
             (hitCount + 1,
              kv\<lparr>storage := Map_delete key (storage kv), exMap := Map_delete key (exMap kv)\<rparr>)
      else sample_forEach currentTimestamp rest (hitCount, kv))"

text \<open>
  The test \<open>(hitCount / sample.size) >= 0.25\<close> on JavaScript numbers: \<open>0 / 0\<close> is \<open>NaN\<close>,
  which compares false; a positive count over \<open>0\<close> is \<open>Infinity\<close>.
\<close>

definition hit_ratio_reached :: "nat \<Rightarrow> nat \<Rightarrow> bool" where
  "hit_ratio_reached hitCount sampleSize =
     (if sampleSize = 0 then hitCount \<noteq> 0
      else real hitCount / real sampleSize \<ge> 0.25)"

text \<open>The default \<open>rate = 0.25\<close> of \<open>buildMapSample\<close>, which the sweep's call uses.\<close>

definition default_rate :: real where
  "default_rate = 0.25"

text \<open>One pass of the sweep: the hit count, the sample size and the instance after it.\<close>

definition sweep_pass ::
  "('k list \<Rightarrow> 'k list) \<Rightarrow> int \<Rightarrow> ('k, 'v, 'i) TinyKv \<Rightarrow> nat \<times> nat \<times> ('k, 'v, 'i) TinyKv" where
  "sweep_pass shuffle currentTimestamp kv =
     (let sample = buildMapSample shuffle (exMap kv) default_rate;
          (hitCount, kv') = sample_forEach currentTimestamp sample (0, kv)
      in (hitCount, Map_size sample, kv'))"

subsection \<open>Every re-sweep shrinks the expiration index\<close>

lemma Map_delete_length_le: "length (Map_delete k m) \<le> length m"
  by (induction m) auto

lemma Map_delete_length_less: "Map_has m k \<Longrightarrow> length (Map_delete k m) < length m"
proof (induction m)
  case Nil
  then show ?case by simp
next
  case (Cons p ps)
  then show ?case
    using Map_delete_length_le [of k ps] by (auto simp: less_Suc_eq_le)
qed

lemma Map_has_iff_get: "Map_has m k \<longleftrightarrow> Map_get m k \<noteq> None"
  by (induction m) auto

lemma Map_set_entries: "(k', v') \<in> set (Map_set k v m) \<Longrightarrow> (k', v') \<in> set m \<or> (k' = k \<and> v' = v)"
  by (induction m) (auto split: if_splits)

lemma sample_loop_entries:
  "(k, v) \<in> set (sample_loop count ks m i acc) \<Longrightarrow> (k, v) \<in> set acc \<or> v = Map_get m k"
proof (induction count ks m i acc rule: sample_loop.induct)
  case (1 count ks m i acc)
  show ?case
  proof (cases "real i < min count (real (length ks))")
    case True
    then have "sample_loop count ks m i acc
        = sample_loop count ks m (Suc i) (Map_set (ks ! i) (Map_get m (ks ! i)) acc)"
      by (subst sample_loop.simps) (simp only: if_True)
    with "1.prems" have "(k, v) \<in> set (sample_loop count ks m (Suc i) (Map_set (ks ! i) (Map_get m (ks ! i)) acc))"
      by simp
    from "1.IH" [OF True this] show ?thesis
      by (auto dest: Map_set_entries)
  next
    case False
    then have "sample_loop count ks m i acc = acc"
      by (subst sample_loop.simps) (simp only: if_False)
    with "1.prems" show ?thesis by simp
  qed
qed

lemma buildMapSample_entries:
  "(k, v) \<in> set (buildMapSample shuffle m rate) \<Longrightarrow> v = Map_get m k"
  unfolding buildMapSample_def Let_def
  by (drule sample_loop_entries) simp

lemma sample_forEach_length_le:
  "length (exMap (snd (sample_forEach ts sample (h, kv)))) \<le> length (exMap kv)"
proof (induction sample arbitrary: h kv)
  case Nil
  then show ?case by simp
next
  case (Cons p rest)
  obtain key t where p: "p = (key, t)" by (cases p)
  show ?case
  proof (cases "timestamp_le ts t")
    case True
    have "length (exMap (snd (sample_forEach ts rest (h + 1,
            kv\<lparr>storage := Map_delete key (storage kv), exMap := Map_delete key (exMap kv)\<rparr>))))
          \<le> length (Map_delete key (exMap kv))"
      using Cons.IH [of "h + 1" "kv\<lparr>storage := Map_delete key (storage kv), exMap := Map_delete key (exMap kv)\<rparr>"]
      by simp
    with True p show ?thesis
      using Map_delete_length_le [of key "exMap kv"] by simp
  next
    case False
    with p Cons.IH [of h kv] show ?thesis by simp
  qed
qed

lemma sample_forEach_hit_shrinks:
  assumes "\<forall>(k, v) \<in> set sample. v = Map_get (exMap kv) k"
    and "h < fst (sample_forEach ts sample (h, kv))"
  shows "length (exMap (snd (sample_forEach ts sample (h, kv)))) < length (exMap kv)"
  using assms
proof (induction sample arbitrary: h kv)
  case Nil
  then show ?case by simp
next
  case (Cons p rest)
  obtain key t where p: "p = (key, t)" by (cases p)
  show ?case
  proof (cases "timestamp_le ts t")
    case True
    from Cons.prems(1) p have "t = Map_get (exMap kv) key" by simp
    with True have "Map_has (exMap kv) key"
      by (auto simp: timestamp_le_def Map_has_iff_get split: option.splits)
    then have "length (Map_delete key (exMap kv)) < length (exMap kv)"
      by (rule Map_delete_length_less)
    moreover have "length (exMap (snd (sample_forEach ts rest (h + 1,
            kv\<lparr>storage := Map_delete key (storage kv), exMap := Map_delete key (exMap kv)\<rparr>))))
          \<le> length (Map_delete key (exMap kv))"
      using sample_forEach_length_le [of ts rest "h + 1" "kv\<lparr>storage := Map_delete key (storage kv), exMap := Map_delete key (exMap kv)\<rparr>"]
      by simp
    ultimately show ?thesis using True p by simp
  next
    case False
    with p Cons.prems have "\<forall>(k, v) \<in> set rest. v = Map_get (exMap kv) k"
      and "h < fst (sample_forEach ts rest (h, kv))" by auto
    from Cons.IH [OF this] False p show ?thesis by simp
  qed
qed

lemma hit_ratio_reached_pos: "hit_ratio_reached h s \<Longrightarrow> 0 < h"
  by (cases "h = 0") (auto simp: hit_ratio_reached_def split: if_splits)

lemma sweep_pass_shrinks:
  assumes "sweep_pass shuffle ts kv = (h, s, kv')" and "hit_ratio_reached h s"
  shows "length (exMap kv') < length (exMap kv)"
proof -
  let ?sample = "buildMapSample shuffle (exMap kv) default_rate"
  from assms(1) have h: "h = fst (sample_forEach ts ?sample (0, kv))"
    and kv': "kv' = snd (sample_forEach ts ?sample (0, kv))"
    by (auto simp: sweep_pass_def Let_def split: prod.splits)
  have "\<forall>(k, v) \<in> set ?sample. v = Map_get (exMap kv) k"
    by (auto dest: buildMapSample_entries)
  moreover from hit_ratio_reached_pos [OF assms(2)] h
  have "0 < fst (sample_forEach ts ?sample (0, kv))" by simp
  ultimately show ?thesis
    unfolding kv' by (rule sample_forEach_hit_shrinks)
qed

text \<open>
  \<open>#runActiveExpiration\<close>. Each pass draws a fresh shuffle and each re-sweep reads
  \<open>Date.now()\<close> again: \<open>rnd n\<close> is the shuffle of pass \<open>n\<close> and \<open>clock n\<close> the time read
  after pass \<open>n\<close>. The recursion is total: a re-sweep needs a hit, and every hit removes
  an entry of the expiration index.
\<close>

function runActiveExpiration ::
  "(nat \<Rightarrow> 'k list \<Rightarrow> 'k list) \<Rightarrow> (nat \<Rightarrow> int) \<Rightarrow> nat \<Rightarrow> int \<Rightarrow> ('k, 'v, 'i) TinyKv
     \<Rightarrow> ('k, 'v, 'i) TinyKv" where
  "runActiveExpiration rnd clock n currentTimestamp kv =
     (case sweep_pass (rnd n) currentTimestamp kv of
        (hitCount, sampleSize, kv') \<Rightarrow>
          if hit_ratio_reached hitCount sampleSize
          then runActiveExpiration rnd clock (Suc n) (clock n) kv'
          else kv')"
  by pat_completeness auto
termination
  apply (relation "measure (\<lambda>(rnd, clock, n, ts, kv). length (exMap kv))")
   apply simp
  apply (auto dest: sweep_pass_shrinks [OF sym])
  done


declare runActiveExpiration.simps [simp del]
declare sample_loop.simps [simp del]

text \<open>The interval callback \<open>() => this.#runActiveExpiration(Date.now())\<close> runs while
  the interval has not been cleared.\<close>

definition timer_tick ::
  "(nat \<Rightarrow> 'k list \<Rightarrow> 'k list) \<Rightarrow> (nat \<Rightarrow> int) \<Rightarrow> int \<Rightarrow> ('k, 'v, 'i) TinyKv
     \<Rightarrow> ('k, 'v, 'i) TinyKv" where
  "timer_tick rnd clock now kv =
     (if intervalActive kv then runActiveExpiration rnd clock 0 now kv else kv)"

section \<open>Reachable instances\<close>

text \<open>The instances that a sequence of method calls and timer ticks, at any times and
  with any shuffles, produces from a freshly constructed cache.\<close>

inductive reachable :: "('k, 'v, 'i) TinyKv \<Rightarrow> bool" where
  r_new: "reachable (new_TinyKv ks vs)"
| r_get: "reachable kv \<Longrightarrow> reachable (snd (get kv now key))"
| r_set: "reachable kv \<Longrightarrow> reachable (snd (set_kv stringify kv key val opts))"
| r_delete: "reachable kv \<Longrightarrow> reachable (delete kv key)"
| r_exists: "reachable kv \<Longrightarrow> reachable (snd (exists kv now key))"
| r_isExpired: "reachable kv \<Longrightarrow> reachable (snd (isExpired kv now key))"
| r_getExpiration: "reachable kv \<Longrightarrow> reachable (snd (getExpiration kv key))"
| r_cleanup: "reachable kv \<Longrightarrow> reachable (cleanup kv)"
| r_tick: "reachable kv \<Longrightarrow> reachable (timer_tick rnd clock now kv)"

section \<open>Notions used to state the properties\<close>

text \<open>A schema accepts an input with an output when it is absent and the output is the
  input itself, or present and returns a success result with that output.\<close>

definition accepts :: "('a \<Rightarrow> ('a, 'i) Result) option \<Rightarrow> 'a \<Rightarrow> 'a \<Rightarrow> bool" where
  "accepts schema input output =
     (case schema of None \<Rightarrow> output = input | Some s \<Rightarrow> s input = SuccessResult output)"

text \<open>A schema rejects an input with an issue list when it is configured and returns a
  failure result with these issues.\<close>

definition rejects :: "('a \<Rightarrow> ('a, 'i) Result) option \<Rightarrow> 'a \<Rightarrow> 'i list \<Rightarrow> bool" where
  "rejects schema input issues =
     (case schema of None \<Rightarrow> False | Some s \<Rightarrow> s input = FailureResult issues)"

text \<open>The cross-map invariant: the keys of the expiration index are keys of the entry set.\<close>

definition index_within_entries :: "('k, 'v, 'i) TinyKv \<Rightarrow> bool" where
  "index_within_entries kv \<longleftrightarrow> set (Map_keys (exMap kv)) \<subseteq> set (Map_keys (storage kv))"

text \<open>The public methods that class \<open>TinyKv\<close> declares, in source order.\<close>

definition TinyKv_methods :: "string list" where
  "TinyKv_methods =
     [''get'', ''set'', ''delete'', ''exists'', ''isExpired'', ''getExpiration'', ''cleanup'']"

section \<open>Example instances\<close>

definition no_issues :: "unit list \<Rightarrow> string" where
  "no_issues issues = []"

definition kv_empty :: "(string, nat, unit) TinyKv" where
  "kv_empty = new_TinyKv None None"

text \<open>\<open>set("a", 1, {ex: 5})\<close> and \<open>set("a", 1, {ex: 20})\<close> on a fresh cache; the examples
  below observe them at time \<open>10\<close>.\<close>

definition kv_past :: "(string, nat, unit) TinyKv" where
  "kv_past = snd (set_kv no_issues kv_empty ''a'' 1 (Some 5))"

definition kv_future :: "(string, nat, unit) TinyKv" where
  "kv_future = snd (set_kv no_issues kv_empty ''a'' 1 (Some 20))"

text \<open>A cache whose value schema rejects odd numbers, and one whose key schema rejects
  the empty key.\<close>

definition kv_even_values :: "(string, nat, string) TinyKv" where
  "kv_even_values =
     new_TinyKv None (Some (\<lambda>v. if even v then SuccessResult v else FailureResult [''odd'']))"

definition kv_nonempty_keys :: "(string, nat, string) TinyKv" where
  "kv_nonempty_keys =
     new_TinyKv (Some (\<lambda>k. if k = [] then FailureResult [''empty''] else SuccessResult k)) None"

text \<open>A cache whose value schema adds one to every value, the same cache after
  \<open>set("a", 1, {ex: 5})\<close>, and a cache whose key schema turns every key into \<open>"A"\<close>.\<close>

definition kv_incr_values :: "(string, nat, string) TinyKv" where
  "kv_incr_values = new_TinyKv None (Some (\<lambda>v. SuccessResult (v + 1)))"

definition kv_incr_past :: "(string, nat, string) TinyKv" where
  "kv_incr_past = snd (set_kv concat kv_incr_values ''a'' 1 (Some 5))"

definition kv_upper_keys :: "(string, nat, string) TinyKv" where
  "kv_upper_keys = new_TinyKv (Some (\<lambda>k. SuccessResult ''A'')) None"

section \<open>Facts about the maps and the methods\<close>

lemma Map_get_set: "Map_get (Map_set k v m) k' = (if k' = k then Some v else Map_get m k')"
  by (induction m) auto

lemma Map_get_delete: "Map_get (Map_delete k m) k' = (if k' = k then None else Map_get m k')"
  by (induction m) auto

lemma Map_has_set: "Map_has (Map_set k v m) k' \<longleftrightarrow> k' = k \<or> Map_has m k'"
  by (simp add: Map_has_iff_get Map_get_set)

lemma Map_has_delete: "Map_has (Map_delete k m) k' \<longleftrightarrow> k' \<noteq> k \<and> Map_has m k'"
  by (simp add: Map_has_iff_get Map_get_delete)

lemma Map_get_Some_mem: "Map_get m k = Some v \<Longrightarrow> (k, v) \<in> set m"
  by (induction m) (auto split: if_splits)

lemma Map_keys_set: "set (Map_keys (Map_set k v m)) = insert k (set (Map_keys m))"
  by (induction m) (auto simp: Map_keys_def)

lemma Map_keys_delete: "set (Map_keys (Map_delete k m)) = set (Map_keys m) - {k}"
  by (induction m) (auto simp: Map_keys_def)

lemma Map_has_keys: "Map_has m k \<longleftrightarrow> k \<in> set (Map_keys m)"
  by (induction m) (auto simp: Map_keys_def)

lemma kv_empty_accepts: "accepts (keySchema kv_empty) k k \<and> accepts (valueSchema kv_empty) v v"
  by (simp add: kv_empty_def new_TinyKv_def accepts_def)

lemma kv_past_eq:
  "kv_past = \<lparr>storage = [(''a'', 1)], exMap = [(''a'', 5)], intervalActive = True,
     keySchema = None, valueSchema = None\<rparr>"
  by (simp add: kv_past_def kv_empty_def set_kv_def new_TinyKv_def)

lemma kv_future_eq:
  "kv_future = \<lparr>storage = [(''a'', 1)], exMap = [(''a'', 20)], intervalActive = True,
     keySchema = None, valueSchema = None\<rparr>"
  by (simp add: kv_future_def kv_empty_def set_kv_def new_TinyKv_def)

lemma kv_incr_past_eq:
  "kv_incr_past = \<lparr>storage = [(''a'', 2)], exMap = [(''a'', 5)], intervalActive = True,
     keySchema = None, valueSchema = Some (\<lambda>v. SuccessResult (v + 1))\<rparr>"
  by (simp add: kv_incr_past_def kv_incr_values_def set_kv_def validate_def new_TinyKv_def)

lemma set_kv_accepted:
  assumes "accepts (keySchema kv) key finalKey" and "accepts (valueSchema kv) val finalValue"
  shows "set_kv stringify kv key val opts =
     (Inr (),
      (case opts of
         None \<Rightarrow> kv\<lparr>storage := Map_set finalKey finalValue (storage kv)\<rparr>
       | Some ex \<Rightarrow>
           if ex \<noteq> 0
           then kv\<lparr>storage := Map_set finalKey finalValue (storage kv),
                   exMap := Map_set finalKey ex (exMap kv)\<rparr>
           else kv\<lparr>storage := Map_set finalKey finalValue (storage kv)\<rparr>))"
  using assms
  by (auto simp: set_kv_def accepts_def validate_def Let_def split: option.splits)

lemma set_kv_rejected_key:
  assumes "rejects (keySchema kv) key issues"
  shows "set_kv stringify kv key val opts = (Inl (Error (stringify issues)), kv)"
  using assms
  by (auto simp: set_kv_def rejects_def validate_def split: option.splits)

lemma set_kv_rejected_value:
  assumes "accepts (keySchema kv) key finalKey" and "rejects (valueSchema kv) val issues"
  shows "set_kv stringify kv key val opts = (Inl (Error (stringify issues)), kv)"
  using assms
  by (auto simp: set_kv_def rejects_def accepts_def validate_def split: option.splits)

lemma get_absent: "\<not> Map_has (storage kv) key \<Longrightarrow> fst (get kv now key) = None"
  by (auto simp: get_def isExpired_def Map_has_iff_get split: option.splits)

lemma snd_isExpired: "snd (isExpired kv now key) = kv"
  by (simp add: isExpired_def split: option.splits)

subsection \<open>A sweep over deadlines that are all past\<close>

lemma buildMapSample_single: "buildMapSample id [(k, t)] default_rate = [(k, Some t)]"
  by (simp add: default_rate_def buildMapSample_def Map_size_def Map_keys_def sample_loop.simps)

lemma sample_forEach_no_hit:
  "\<forall>(k, v) \<in> set sample. \<not> timestamp_le ts v \<Longrightarrow> sample_forEach ts sample (h, kv) = (h, kv)"
  by (induction sample) auto

lemma sweep_pass_all_past:
  assumes "\<forall>(k, t) \<in> set (exMap kv). t < ts"
  shows "sweep_pass shuffle ts kv
    = (0, Map_size (buildMapSample shuffle (exMap kv) default_rate), kv)"
proof -
  let ?sample = "buildMapSample shuffle (exMap kv) default_rate"
  have "\<forall>(k, v) \<in> set ?sample. \<not> timestamp_le ts v"
  proof (clarify)
    fix k v assume mem: "(k, v) \<in> set ?sample" and le: "timestamp_le ts v"
    from mem have v: "v = Map_get (exMap kv) k" by (rule buildMapSample_entries)
    from le obtain t where t: "v = Some t" "ts \<le> t"
      by (auto simp: timestamp_le_def split: option.splits)
    with v have "(k, t) \<in> set (exMap kv)" by (simp add: Map_get_Some_mem)
    with assms have "t < ts" by auto
    with t show False by simp
  qed
  then have "sample_forEach ts ?sample (0, kv) = (0, kv)"
    by (rule sample_forEach_no_hit)
  then show ?thesis by (simp add: sweep_pass_def)
qed

lemma runActiveExpiration_all_past:
  assumes "\<forall>(k, t) \<in> set (exMap kv). t < ts"
  shows "runActiveExpiration rnd clock n ts kv = kv"
proof -
  have "\<not> hit_ratio_reached 0 s" for s
    using hit_ratio_reached_pos [of 0 s] by auto
  then show ?thesis
    by (subst runActiveExpiration.simps) (simp add: sweep_pass_all_past [OF assms])
qed

subsection \<open>Every operation keeps the index within the entry set\<close>

lemma inv_new: "index_within_entries (new_TinyKv ks vs)"
  by (simp add: index_within_entries_def new_TinyKv_def Map_keys_def)

lemma inv_delete: "index_within_entries kv \<Longrightarrow> index_within_entries (delete kv key)"
  by (auto simp: index_within_entries_def delete_def Map_keys_delete)

lemma inv_cleanup: "index_within_entries (cleanup kv)"
  by (simp add: index_within_entries_def cleanup_def Map_keys_def)

lemma inv_get: "index_within_entries kv \<Longrightarrow> index_within_entries (snd (get kv now key))"
  using snd_isExpired [of kv now key]
  by (cases "isExpired kv now key") (auto simp: get_def inv_delete)

lemma inv_exists: "index_within_entries kv \<Longrightarrow> index_within_entries (snd (exists kv now key))"
  using snd_isExpired [of kv now key]
  by (cases "isExpired kv now key") (auto simp: exists_def inv_delete)

lemma snd_getExpiration: "snd (getExpiration kv key) = kv"
  by (simp add: getExpiration_def)

lemma inv_set:
  assumes "index_within_entries kv"
  shows "index_within_entries (snd (set_kv stringify kv key val opts))"
  using assms
  by (auto simp: set_kv_def Let_def index_within_entries_def Map_keys_set
           split: option.splits sum.splits)

lemma inv_sample_forEach:
  "index_within_entries kv \<Longrightarrow> index_within_entries (snd (sample_forEach ts sample (h, kv)))"
proof (induction sample arbitrary: h kv)
  case Nil
  then show ?case by simp
next
  case (Cons p rest)
  obtain key t where p: "p = (key, t)" by (cases p)
  let ?kv' = "kv\<lparr>storage := Map_delete key (storage kv), exMap := Map_delete key (exMap kv)\<rparr>"
  from Cons.prems have "index_within_entries ?kv'"
    by (auto simp: index_within_entries_def Map_keys_delete)
  from Cons.IH [OF this] Cons.IH [OF Cons.prems] p show ?case by simp
qed

lemma inv_sweep_pass:
  assumes "index_within_entries kv" and "sweep_pass shuffle ts kv = (h, s, kv')"
  shows "index_within_entries kv'"
proof -
  from assms(2)
  have "kv' = snd (sample_forEach ts (buildMapSample shuffle (exMap kv) default_rate) (0, kv))"
    by (auto simp: sweep_pass_def Let_def split: prod.splits)
  with assms(1) show ?thesis by (simp add: inv_sample_forEach)
qed

lemma inv_runActiveExpiration:
  "index_within_entries kv \<Longrightarrow> index_within_entries (runActiveExpiration rnd clock n ts kv)"
proof (induction rnd clock n ts kv rule: runActiveExpiration.induct)
  case (1 rnd clock n ts kv)
  obtain h s kv' where pass: "sweep_pass (rnd n) ts kv = (h, s, kv')"
    by (cases "sweep_pass (rnd n) ts kv") auto
  from "1.prems" pass have inv': "index_within_entries kv'" by (rule inv_sweep_pass)
  show ?case
  proof (cases "hit_ratio_reached h s")
    case True
    have "index_within_entries (runActiveExpiration rnd clock (Suc n) (clock n) kv')"
      using "1.IH" [OF pass [symmetric] refl True inv'] .
    with pass True show ?thesis
      by (subst runActiveExpiration.simps) simp
  next
    case False
    with pass inv' show ?thesis
      by (subst runActiveExpiration.simps) simp
  qed
qed

lemma inv_timer_tick:
  "index_within_entries kv \<Longrightarrow> index_within_entries (timer_tick rnd clock now kv)"
  by (simp add: timer_tick_def inv_runActiveExpiration)

lemma reachable_inv: "reachable kv \<Longrightarrow> index_within_entries kv"
proof (induction rule: reachable.induct)
  case (r_new ks vs)
  show ?case by (rule inv_new)
next
  case (r_get kv now key)
  then show ?case by (simp add: inv_get)
next
  case (r_set kv stringify key val opts)
  then show ?case by (simp add: inv_set)
next
  case (r_delete kv key)
  then show ?case by (simp add: inv_delete)
next
  case (r_exists kv now key)
  then show ?case by (simp add: inv_exists)
next
  case (r_isExpired kv now key)
  then show ?case by (simp add: snd_isExpired)
next
  case (r_getExpiration kv key)
  then show ?case by (simp add: snd_getExpiration)
next
  case (r_cleanup kv)
  show ?case by (rule inv_cleanup)
next
  case (r_tick kv rnd clock now)
  then show ?case by (simp add: inv_timer_tick)
qed

section \<open>The claims\<close>

text \<open>
  Claim C1 says that a pass of the active sweep evicts a sampled key exactly when the
  current timestamp is past the key's deadline, and leaves the other sampled keys alone.
  The pass tests \<open>currentTimestamp <= timestamp\<close>, the opposite of the test
  \<open>Date.now() > deadline\<close> of \<open>isExpired\<close>. At time \<open>10\<close>, the sampled key with deadline \<open>5\<close>
  is expired and the pass keeps it with no hit counted; the sampled key with deadline \<open>20\<close>
  is not expired and the pass counts a hit and evicts it from both maps.
\<close>

theorem sweep_pass_evicts_unexpired_keeps_expired:
  "fst (isExpired kv_past 10 ''a'') = Some True
   \<and> sweep_pass id 10 kv_past = (0, 1, kv_past)
   \<and> fst (isExpired kv_future 10 ''a'') = Some False
   \<and> sweep_pass id 10 kv_future = (1, 1, kv_future\<lparr>storage := [], exMap := []\<rparr>)"
  by (simp add: kv_past_eq kv_future_eq isExpired_def sweep_pass_def buildMapSample_single
        Map_size_def timestamp_le_def)

text \<open>
  Claim C2 says that the sweep over keys whose deadlines are all past terminates and
  leaves no expired key with a deadline. The sweep terminates on every instance (the
  recursion of \<open>runActiveExpiration\<close> is total), but because of the comparison of C1 it evicts
  nothing here: with the one key of deadline \<open>5\<close> swept at time \<open>10\<close>, under every shuffle and
  clock, the sweep returns the instance as it was and the expired key is still in the
  expiration index.
\<close>

theorem sweep_leaves_expired_key:
  "fst (isExpired kv_past 10 ''a'') = Some True
   \<and> runActiveExpiration rnd clock 0 10 kv_past = kv_past
   \<and> Map_has (exMap (runActiveExpiration rnd clock 0 10 kv_past)) ''a''"
proof -
  have "\<forall>(k, t) \<in> set (exMap kv_past). t < 10" by (simp add: kv_past_eq)
  then have "runActiveExpiration rnd clock 0 10 kv_past = kv_past"
    by (rule runActiveExpiration_all_past)
  then show ?thesis by (simp add: kv_past_eq isExpired_def)
qed

text \<open>
  Claim C3: for every key and every current time, \<open>isExpired\<close> returns \<open>undefined\<close> exactly
  when the key has no entry in the expiration index, \<open>true\<close> exactly when it has a deadline
  and the current time is strictly greater than it, and \<open>false\<close> exactly when it has a
  deadline that the current time is not strictly greater than; the call leaves the
  instance, hence both maps, as it was.
\<close>

theorem isExpired_query:
  "(fst (isExpired kv now key) = None \<longleftrightarrow> \<not> Map_has (exMap kv) key)
   \<and> (fst (isExpired kv now key) = Some True
        \<longleftrightarrow> (\<exists>deadline. Map_get (exMap kv) key = Some deadline \<and> now > deadline))
   \<and> (fst (isExpired kv now key) = Some False
        \<longleftrightarrow> (\<exists>deadline. Map_get (exMap kv) key = Some deadline \<and> \<not> now > deadline))
   \<and> snd (isExpired kv now key) = kv"
  by (auto simp: isExpired_def Map_has_iff_get split: option.splits)

text \<open>
  Claim C4, amended: for every key \<open>k\<close>, value \<open>v\<close> and deadline other than \<open>0\<close> that is
  strictly before the observation time, after a \<open>set(k, v, {ex: deadline})\<close> whose
  validation (if configured) accepts the key unchanged and the value, one call of \<open>get(k)\<close>
  returns absent, one call of \<open>exists(k)\<close> returns \<open>false\<close>, and either call leaves \<open>k\<close> in
  neither the entry set nor the expiration index.
\<close>

theorem past_nonzero_deadline_purged:
  assumes "accepts (keySchema kv) k k" and "accepts (valueSchema kv) v v'"
    and "deadline \<noteq> 0" and "deadline < now"
  shows "fst (set_kv stringify kv k v (Some deadline)) = Inr ()
    \<and> fst (get (snd (set_kv stringify kv k v (Some deadline))) now k) = None
    \<and> \<not> Map_has (storage (snd (get (snd (set_kv stringify kv k v (Some deadline))) now k))) k
    \<and> \<not> Map_has (exMap (snd (get (snd (set_kv stringify kv k v (Some deadline))) now k))) k
    \<and> fst (exists (snd (set_kv stringify kv k v (Some deadline))) now k) = False
    \<and> \<not> Map_has (storage (snd (exists (snd (set_kv stringify kv k v (Some deadline))) now k))) k
    \<and> \<not> Map_has (exMap (snd (exists (snd (set_kv stringify kv k v (Some deadline))) now k))) k"
proof -
  let ?kv1 = "kv\<lparr>storage := Map_set k v' (storage kv), exMap := Map_set k deadline (exMap kv)\<rparr>"
  have s: "set_kv stringify kv k v (Some deadline) = (Inr (), ?kv1)"
    using assms(3) by (simp add: set_kv_accepted [OF assms(1,2)])
  have e: "isExpired ?kv1 now k = (Some True, ?kv1)"
    using assms(4) by (simp add: isExpired_def Map_has_set Map_get_set)
  have g: "get ?kv1 now k = (None, delete ?kv1 k)"
    by (simp add: get_def e)
  have x: "exists ?kv1 now k = (False, delete ?kv1 k)"
    by (simp add: exists_def e)
  have d: "\<not> Map_has (storage (delete ?kv1 k)) k" "\<not> Map_has (exMap (delete ?kv1 k)) k"
    by (simp_all add: delete_def Map_has_delete)
  show ?thesis
    unfolding s by (simp only: fst_conv snd_conv g x d) simp
qed

theorem past_nonzero_deadline_purged_witness:
  "accepts (keySchema kv_empty) ''a'' ''a'' \<and> accepts (valueSchema kv_empty) (1::nat) 1
   \<and> (5::int) \<noteq> 0 \<and> (5::int) < 10
   \<and> fst (get (snd (set_kv no_issues kv_empty ''a'' 1 (Some 5))) 10 ''a'') = None
   \<and> fst (exists (snd (set_kv no_issues kv_empty ''a'' 1 (Some 5))) 10 ''a'') = False"
  using past_nonzero_deadline_purged [of kv_empty "''a''" 1 1 5 10 no_issues]
    kv_empty_accepts [of "''a''" 1]
  by simp

text \<open>
  C4 as stated fails at the deadline \<open>0\<close>, which is in the past at time \<open>1000\<close>: the guard
  \<open>if (opts?.ex)\<close> records no deadline for it, so \<open>get\<close> returns the value and \<open>exists\<close>
  returns \<open>true\<close>.
\<close>

theorem past_deadline_zero_not_purged:
  "(0::int) < 1000
   \<and> fst (get (snd (set_kv no_issues kv_empty ''a'' 1 (Some 0))) 1000 ''a'') = Some 1
   \<and> fst (exists (snd (set_kv no_issues kv_empty ''a'' 1 (Some 0))) 1000 ''a'') = True"
  by (simp add: kv_empty_def new_TinyKv_def set_kv_def get_def exists_def isExpired_def)

text \<open>
  Claim C5, amended: for every key \<open>k\<close> with a deadline recorded in the expiration index,
  a successful \<open>set(k, v2)\<close> without a deadline option, whose validation turns \<open>k\<close> into
  \<open>k'\<close> and \<open>v2\<close> into \<open>v'\<close> (both unchanged when no schema is configured), stores \<open>v'\<close>
  under \<open>k'\<close> and leaves the expiration index, and so the deadline of \<open>k\<close>, unchanged. A
  following \<open>get(k')\<close> returns \<open>v'\<close> when \<open>k'\<close> has no deadline or the current time is not
  past it, and absent when it is past; so when the key is accepted unchanged, \<open>get(k)\<close>
  returns \<open>v'\<close> when the current time is not past the retained deadline, and absent when
  it is.
\<close>

theorem overwrite_keeps_deadline:
  assumes "Map_get (exMap kv) k = Some deadline"
    and "accepts (keySchema kv) k k'" and "accepts (valueSchema kv) v2 v'"
  shows "fst (set_kv stringify kv k v2 None) = Inr ()
    \<and> Map_get (storage (snd (set_kv stringify kv k v2 None))) k' = Some v'
    \<and> exMap (snd (set_kv stringify kv k v2 None)) = exMap kv
    \<and> Map_get (exMap (snd (set_kv stringify kv k v2 None))) k = Some deadline
    \<and> fst (get (snd (set_kv stringify kv k v2 None)) now k')
        = (case Map_get (exMap kv) k' of
             None \<Rightarrow> Some v'
           | Some d \<Rightarrow> if now > d then None else Some v')
    \<and> (k' = k \<longrightarrow> fst (get (snd (set_kv stringify kv k v2 None)) now k)
        = (if now > deadline then None else Some v'))"
proof -
  let ?kv1 = "kv\<lparr>storage := Map_set k' v' (storage kv)\<rparr>"
  have s: "set_kv stringify kv k v2 None = (Inr (), ?kv1)"
    by (simp add: set_kv_accepted [OF assms(2,3)])
  have g: "fst (get ?kv1 now k')
      = (case Map_get (exMap kv) k' of
           None \<Rightarrow> Some v'
         | Some d \<Rightarrow> if now > d then None else Some v')"
    by (simp add: get_def isExpired_def Map_has_iff_get Map_get_set split: option.splits)
  have g': "fst (get ?kv1 now k) = (if now > deadline then None else Some v')" if "k' = k"
    using g assms(1) that by simp
  show ?thesis
    unfolding s using assms(1) g g' by (simp add: Map_get_set)
qed

theorem overwrite_keeps_deadline_witness:
  "Map_get (exMap kv_past) ''a'' = Some 5
   \<and> accepts (keySchema kv_past) ''a'' ''a'' \<and> accepts (valueSchema kv_past) (2::nat) 2
   \<and> Map_get (exMap (snd (set_kv no_issues kv_past ''a'' 2 None))) ''a'' = Some 5
   \<and> fst (get (snd (set_kv no_issues kv_past ''a'' 2 None)) 3 ''a'') = Some 2
   \<and> Map_get (exMap kv_incr_past) ''a'' = Some 5
   \<and> accepts (keySchema kv_incr_past) ''a'' ''a'' \<and> accepts (valueSchema kv_incr_past) (2::nat) 3
   \<and> Map_get (exMap (snd (set_kv concat kv_incr_past ''a'' 2 None))) ''a'' = Some 5
   \<and> fst (get (snd (set_kv concat kv_incr_past ''a'' 2 None)) 3 ''a'') = Some 3
   \<and> fst (get (snd (set_kv concat kv_incr_past ''a'' 2 None)) 10 ''a'') = None"
proof -
  have d: "Map_get (exMap kv_past) ''a'' = Some 5" by (simp add: kv_past_eq)
  have a: "accepts (keySchema kv_past) ''a'' ''a''" "accepts (valueSchema kv_past) (2::nat) 2"
    by (simp_all add: kv_past_eq accepts_def)
  have d': "Map_get (exMap kv_incr_past) ''a'' = Some 5" by (simp add: kv_incr_past_eq)
  have a': "accepts (keySchema kv_incr_past) ''a'' ''a''"
    "accepts (valueSchema kv_incr_past) (2::nat) 3"
    by (simp_all add: kv_incr_past_eq accepts_def)
  from overwrite_keeps_deadline [OF d a, of no_issues 3]
    overwrite_keeps_deadline [OF d' a', of concat 3]
    overwrite_keeps_deadline [OF d' a', of concat 10]
    d a d' a'
  show ?thesis by simp
qed

text \<open>
  C5 as stated fails when the retained deadline is already past: with the deadline \<open>5\<close>
  kept, \<open>get\<close> at time \<open>10\<close> after \<open>set("a", 2)\<close> does not return \<open>2\<close>.
\<close>

theorem overwrite_then_get_after_deadline:
  "Map_get (exMap kv_past) ''a'' = Some 5
   \<and> fst (set_kv no_issues kv_past ''a'' 2 None) = Inr ()
   \<and> fst (get (snd (set_kv no_issues kv_past ''a'' 2 None)) 10 ''a'') \<noteq> Some 2"
  by (simp add: kv_past_eq set_kv_def get_def isExpired_def)

text \<open>
  Claim C6: when the configured key schema rejects the key, or the key is accepted and
  the configured value schema rejects the value, \<open>set\<close> throws an error whose message is
  the serialised issue list of the rejecting validator and leaves the instance, hence
  both maps, unchanged; a following \<open>get\<close> of a key with no entry returns absent.
\<close>

theorem set_validation_failure_atomic:
  "(rejects (keySchema kv) key issues
      \<longrightarrow> set_kv stringify kv key val opts = (Inl (Error (stringify issues)), kv))
   \<and> (accepts (keySchema kv) key finalKey \<and> rejects (valueSchema kv) val issues
      \<longrightarrow> set_kv stringify kv key val opts = (Inl (Error (stringify issues)), kv))
   \<and> ((rejects (keySchema kv) key issues
        \<or> accepts (keySchema kv) key finalKey \<and> rejects (valueSchema kv) val issues)
       \<and> \<not> Map_has (storage kv) key
      \<longrightarrow> fst (get (snd (set_kv stringify kv key val opts)) now key) = None)"
  by (auto simp: set_kv_rejected_key set_kv_rejected_value get_absent)

theorem set_validation_failure_atomic_witness:
  "rejects (valueSchema kv_even_values) (3::nat) [''odd'']
   \<and> accepts (keySchema kv_even_values) ''a'' ''a''
   \<and> \<not> Map_has (storage kv_even_values) ''a''
   \<and> set_kv concat kv_even_values ''a'' 3 None = (Inl (Error ''odd''), kv_even_values)
   \<and> fst (get (snd (set_kv concat kv_even_values ''a'' 3 None)) 0 ''a'') = None
   \<and> rejects (keySchema kv_nonempty_keys) [] [''empty'']
   \<and> \<not> Map_has (storage kv_nonempty_keys) []
   \<and> set_kv concat kv_nonempty_keys [] 4 (Some 9) = (Inl (Error ''empty''), kv_nonempty_keys)
   \<and> fst (get (snd (set_kv concat kv_nonempty_keys [] 4 (Some 9))) 0 []) = None"
proof -
  have r: "rejects (valueSchema kv_even_values) (3::nat) [''odd'']"
    by (simp add: kv_even_values_def new_TinyKv_def rejects_def)
  have a: "accepts (keySchema kv_even_values) ''a'' ''a''"
    by (simp add: kv_even_values_def new_TinyKv_def accepts_def)
  have n: "\<not> Map_has (storage kv_even_values) ''a''"
    by (simp add: kv_even_values_def new_TinyKv_def)
  have r': "rejects (keySchema kv_nonempty_keys) [] [''empty'']"
    by (simp add: kv_nonempty_keys_def new_TinyKv_def rejects_def)
  have n': "\<not> Map_has (storage kv_nonempty_keys) []"
    by (simp add: kv_nonempty_keys_def new_TinyKv_def)
  from r a n r' n'
    set_validation_failure_atomic [of kv_even_values "''a''" "[''odd'']" concat 3 None "''a''" 0]
    set_validation_failure_atomic [of kv_nonempty_keys "[]" "[''empty'']" concat 4 "Some 9" "[]" 0]
  show ?thesis by auto
qed

text \<open>
  Claim C7: when the expiration index is empty, one invocation of the active sweep takes
  an empty sample under every shuffle, counts no hit and evicts nothing, does not meet
  the re-sweep test (the ratio \<open>0 / 0\<close> is not at least \<open>0.25\<close>), and returns the instance
  unchanged.
\<close>

theorem empty_index_sweep_stops:
  assumes "exMap kv = []"
  shows "buildMapSample shuffle (exMap kv) default_rate = []
    \<and> sweep_pass shuffle currentTimestamp kv = (0, 0, kv)
    \<and> \<not> hit_ratio_reached 0 0
    \<and> runActiveExpiration rnd clock n currentTimestamp kv = kv"
proof -
  have sample: "buildMapSample shuffle (exMap kv) default_rate = []"
    for shuffle :: "'a list \<Rightarrow> 'a list"
    by (simp add: assms buildMapSample_def Map_size_def sample_loop.simps)
  have pass: "sweep_pass shuffle currentTimestamp kv = (0, 0, kv)"
    for shuffle :: "'a list \<Rightarrow> 'a list"
    by (simp add: sweep_pass_def sample Map_size_def)
  have stop: "\<not> hit_ratio_reached 0 0"
    by (simp add: hit_ratio_reached_def)
  have "runActiveExpiration rnd clock n currentTimestamp kv = kv"
    by (subst runActiveExpiration.simps) (simp add: pass stop)
  with sample pass stop show ?thesis by simp
qed

theorem empty_index_sweep_stops_witness:
  "exMap kv_empty = []
   \<and> buildMapSample rev (exMap kv_empty) default_rate = []
   \<and> sweep_pass rev 7 kv_empty = (0, 0, kv_empty)
   \<and> runActiveExpiration (\<lambda>_. rev) (\<lambda>_. 7) 0 7 kv_empty = kv_empty"
proof -
  have e: "exMap kv_empty = []" by (simp add: kv_empty_def new_TinyKv_def)
  from e empty_index_sweep_stops [OF e, of rev 7 "\<lambda>_. rev" "\<lambda>_. 7" 0] show ?thesis by simp
qed

text \<open>
  Claim C8 says that the public interface provides a \<open>size()\<close> operation returning the
  number of entries of the entry set. The README lists \<open>kv.size()\<close> and the example server
  calls \<open>cache.size()\<close>, but class \<open>TinyKv\<close> declares no such method.
\<close>

theorem size_is_not_a_method: "''size'' \<notin> set TinyKv_methods"
  by (simp add: TinyKv_methods_def)

text \<open>
  Claim C9: in every instance reachable from a fresh cache by calls of \<open>get\<close>, \<open>set\<close>,
  \<open>delete\<close>, \<open>exists\<close>, \<open>isExpired\<close>, \<open>getExpiration\<close>, \<open>cleanup\<close> and timer-driven sweeps,
  every key present in the expiration index is present in the entry set.
\<close>

theorem expiration_keys_have_entries:
  assumes "reachable kv" and "Map_has (exMap kv) k"
  shows "Map_has (storage kv) k"
  using reachable_inv [OF assms(1)] assms(2)
  by (auto simp: index_within_entries_def Map_has_keys)

theorem expiration_keys_have_entries_witness:
  "reachable kv_past \<and> Map_has (exMap kv_past) ''a'' \<and> Map_has (storage kv_past) ''a''"
proof -
  have r: "reachable kv_past"
    unfolding kv_past_def kv_empty_def by (rule r_set, rule r_new)
  have h: "Map_has (exMap kv_past) ''a''"
    by (simp add: kv_past_eq)
  from r h expiration_keys_have_entries [OF r h] show ?thesis by simp
qed

text \<open>
  Claim C10, amended: for every key \<open>k\<close> and value \<open>v\<close>, a successful
  \<open>set(k, v, {ex: 0})\<close>, whose validation turns \<open>k\<close> into \<open>k'\<close> and \<open>v\<close> into \<open>v'\<close> (both
  unchanged when no schema is configured), stores \<open>v'\<close> under \<open>k'\<close> and leaves the
  expiration index as it was (it records no deadline, since \<open>0\<close> is falsy); so when \<open>k'\<close>
  had no deadline recorded before, \<open>isExpired(k')\<close> returns \<open>undefined\<close> afterwards and
  \<open>get(k')\<close> returns \<open>v'\<close> at every time without purging.
\<close>

theorem ex_zero_records_no_deadline:
  assumes "accepts (keySchema kv) k k'" and "accepts (valueSchema kv) v v'"
  shows "fst (set_kv stringify kv k v (Some 0)) = Inr ()
    \<and> Map_get (storage (snd (set_kv stringify kv k v (Some 0)))) k' = Some v'
    \<and> exMap (snd (set_kv stringify kv k v (Some 0))) = exMap kv
    \<and> (\<not> Map_has (exMap kv) k' \<longrightarrow>
         fst (isExpired (snd (set_kv stringify kv k v (Some 0))) now k') = None
         \<and> get (snd (set_kv stringify kv k v (Some 0))) now k'
             = (Some v', snd (set_kv stringify kv k v (Some 0))))"
proof -
  let ?kv1 = "kv\<lparr>storage := Map_set k' v' (storage kv)\<rparr>"
  have s: "set_kv stringify kv k v (Some 0) = (Inr (), ?kv1)"
    by (simp add: set_kv_accepted [OF assms])
  have e: "isExpired ?kv1 now k' = (None, ?kv1)" if "\<not> Map_has (exMap kv) k'"
    using that by (simp add: isExpired_def)
  show ?thesis
    unfolding s by (simp add: e get_def Map_get_set)
qed

theorem ex_zero_records_no_deadline_witness:
  "accepts (keySchema kv_empty) ''a'' ''a'' \<and> accepts (valueSchema kv_empty) (1::nat) 1
   \<and> \<not> Map_has (exMap kv_empty) ''a''
   \<and> exMap (snd (set_kv no_issues kv_empty ''a'' 1 (Some 0))) = []
   \<and> fst (isExpired (snd (set_kv no_issues kv_empty ''a'' 1 (Some 0))) 1000 ''a'') = None
   \<and> fst (get (snd (set_kv no_issues kv_empty ''a'' 1 (Some 0))) 1000 ''a'') = Some 1
   \<and> accepts (keySchema kv_upper_keys) ''a'' ''A'' \<and> accepts (valueSchema kv_upper_keys) (1::nat) 1
   \<and> \<not> Map_has (exMap kv_upper_keys) ''A''
   \<and> fst (isExpired (snd (set_kv concat kv_upper_keys ''a'' 1 (Some 0))) 1000 ''A'') = None
   \<and> fst (get (snd (set_kv concat kv_upper_keys ''a'' 1 (Some 0))) 1000 ''A'') = Some 1"
proof -
  have n: "\<not> Map_has (exMap kv_empty) ''a''" "exMap kv_empty = []"
    by (simp_all add: kv_empty_def new_TinyKv_def)
  have a: "accepts (keySchema kv_empty) ''a'' ''a''" "accepts (valueSchema kv_empty) (1::nat) 1"
    using kv_empty_accepts [of "''a''" 1] by simp_all
  have n': "\<not> Map_has (exMap kv_upper_keys) ''A''"
    by (simp add: kv_upper_keys_def new_TinyKv_def)
  have a': "accepts (keySchema kv_upper_keys) ''a'' ''A''"
    "accepts (valueSchema kv_upper_keys) (1::nat) 1"
    by (simp_all add: kv_upper_keys_def new_TinyKv_def accepts_def)
  from ex_zero_records_no_deadline [OF a, of no_issues 1000]
    ex_zero_records_no_deadline [OF a', of concat 1000] n a n' a'
  show ?thesis by simp
qed

text \<open>
  C10 as stated fails for a key that already has a deadline: after \<open>set("a", 1, {ex: 5})\<close>,
  the call \<open>set("a", 2, {ex: 0})\<close> keeps the deadline \<open>5\<close>, so at time \<open>10\<close> \<open>isExpired("a")\<close>
  is \<open>true\<close>, not \<open>undefined\<close>, and \<open>get("a")\<close> finds the entry expired.
\<close>

theorem ex_zero_keeps_earlier_deadline:
  "fst (set_kv no_issues kv_past ''a'' 2 (Some 0)) = Inr ()
   \<and> fst (isExpired (snd (set_kv no_issues kv_past ''a'' 2 (Some 0))) 10 ''a'') = Some True
   \<and> fst (get (snd (set_kv no_issues kv_past ''a'' 2 (Some 0))) 10 ''a'') = None"
  by (simp add: kv_past_eq set_kv_def get_def isExpired_def)

end
